theory Spec2Isabelle
  imports Complex_Main
begin

section \<open>Python values\<close>

text \<open>
  The program is a Python script. Its numbers are Python ints and floats; here every
  number that can be a float is a \<open>real\<close>, so float arithmetic is read as exact
  arithmetic (no rounding, no inf, no nan), and a Python int is an \<open>int\<close>.
  An exception is a value of \<open>py_error\<close>, and a function that can raise returns
  \<open>py_error + 'a\<close> with \<open>Inl\<close> for the raised exception.

  \<open>EmptyInputError\<close> is the name the specification gives to the failure of the
  closest-match search on an empty list; no statement of the script raises it.
\<close>

datatype py_error = IndexError | KeyError | ZeroDivisionError | ValueError | EmptyInputError

text \<open>\<open>a / b\<close> on numbers: raises ZeroDivisionError when the divisor is zero.\<close>

definition py_truediv :: "real \<Rightarrow> real \<Rightarrow> py_error + real" where
  "py_truediv a b = (if b = 0 then Inl ZeroDivisionError else Inr (a / b))"

text \<open>\<open>int(x)\<close> on a float: truncation toward zero.\<close>

definition py_int :: "real \<Rightarrow> int" where
  "py_int x = (if 0 \<le> x then \<lfloor>x\<rfloor> else \<lceil>x\<rceil>)"

section \<open>Geometry\<close>

text \<open>
  \<open>bbox.BBox2D\<close> built in mode XYXY is used by the script only through its four
  corner coordinates \<open>x1, y1, x2, y2\<close>.
\<close>

record BBox2D =
  x1 :: real
  y1 :: real
  x2 :: real
  y2 :: real

text \<open>
  \<^verbatim>\<open>
  def iou(b1, b2):
      x_a = max(b1.x1, b2.x1)
      y_a = max(b1.y1, b2.y1)
      x_b = min(b1.x2, b2.x2)
      y_b = min(b1.y2, b2.y2)
      inter_area = max(0, x_b - x_a) * max(0, y_b - y_a)
      box_a_area = (b1.x2 - b1.x1) * (b1.y2 - b1.y1)
      box_b_area = (b2.x2 - b2.x1) * (b2.y2 - b2.y1)
      denominator = float(box_a_area + box_b_area - inter_area)
      return inter_area / denominator if denominator != 0 else 0
  \<close>
\<close>

definition iou :: "BBox2D \<Rightarrow> BBox2D \<Rightarrow> py_error + real" where
  "iou b1 b2 =
     (let x_a = max (x1 b1) (x1 b2);
          y_a = max (y1 b1) (y1 b2);
          x_b = min (x2 b1) (x2 b2);
          y_b = min (y2 b1) (y2 b2);
          inter_area = max 0 (x_b - x_a) * max 0 (y_b - y_a);
          box_a_area = (x2 b1 - x1 b1) * (y2 b1 - y1 b1);
          box_b_area = (x2 b2 - x1 b2) * (y2 b2 - y1 b2);
          denominator = box_a_area + box_b_area - inter_area
      in if denominator \<noteq> 0 then py_truediv inter_area denominator else Inr 0)"

text \<open>
  The quantities the properties of \<open>iou\<close> are stated with: the area of a box as
  \<open>iou\<close> computes it, the intersection area, the union area (the denominator), and
  the Rectangle invariant of the specification.
\<close>

definition area :: "BBox2D \<Rightarrow> real" where
  "area b = (x2 b - x1 b) * (y2 b - y1 b)"

definition inter_area :: "BBox2D \<Rightarrow> BBox2D \<Rightarrow> real" where
  "inter_area b1 b2 =
     max 0 (min (x2 b1) (x2 b2) - max (x1 b1) (x1 b2)) *
     max 0 (min (y2 b1) (y2 b2) - max (y1 b1) (y1 b2))"

definition union_area :: "BBox2D \<Rightarrow> BBox2D \<Rightarrow> real" where
  "union_area b1 b2 = area b1 + area b2 - inter_area b1 b2"

definition well_formed :: "BBox2D \<Rightarrow> bool" where
  "well_formed b = (x1 b \<le> x2 b \<and> y1 b \<le> y2 b)"


text \<open>
  \<^verbatim>\<open>
  def find_closest_iou(b1, contenders):
      last_i, last_iou = 0, iou(b1, contenders[0])
      for idx, c in enumerate(contenders[1:]):
          new_iou = iou(b1, c)
          if new_iou > last_iou:
              last_i, last_iou = idx + 1, new_iou
      return last_i, last_iou
  \<close>
  The loop over \<open>enumerate(contenders[1:])\<close> is \<open>find_closest_loop\<close>: its list is
  what is left to scan, \<open>idx\<close> the position enumerate gives to the head of that list,
  and the pair the running \<open>(last_i, last_iou)\<close>. Reading \<open>contenders[0]\<close> of an
  empty list raises IndexError.
\<close>

fun find_closest_loop :: "BBox2D \<Rightarrow> BBox2D list \<Rightarrow> nat \<Rightarrow> nat \<times> real \<Rightarrow> py_error + nat \<times> real" where
  "find_closest_loop b1 [] idx (last_i, last_iou) = Inr (last_i, last_iou)"
| "find_closest_loop b1 (c # cs) idx (last_i, last_iou) =
     (case iou b1 c of
        Inl e \<Rightarrow> Inl e
      | Inr new_iou \<Rightarrow>
          if new_iou > last_iou then find_closest_loop b1 cs (idx + 1) (idx + 1, new_iou)
          else find_closest_loop b1 cs (idx + 1) (last_i, last_iou))"

definition find_closest_iou :: "BBox2D \<Rightarrow> BBox2D list \<Rightarrow> py_error + nat \<times> real" where
  "find_closest_iou b1 contenders =
     (case contenders of
        [] \<Rightarrow> Inl IndexError
      | c0 # rest \<Rightarrow>
          (case iou b1 c0 of
             Inl e \<Rightarrow> Inl e
           | Inr first_iou \<Rightarrow> find_closest_loop b1 rest 0 (0, first_iou)))"

text \<open>
  \<^verbatim>\<open>
  def from_yolo_bbox(cx, cy, nw, nh, w, h) -> BBox2D:
      left = max(0, int((cx - nw / 2) * w))
      upper = max(0, int((cy - nh / 2) * h))
      right = min(w, int((cx + nw / 2) * w))
      lower = min(h, int((cy + nh / 2) * h))
      return BBox2D((left, upper, right, lower), mode=XYXY)
  \<close>
  \<open>w\<close> and \<open>h\<close> are the image's dimensions in pixels, Python ints.
\<close>

definition from_yolo_bbox :: "real \<Rightarrow> real \<Rightarrow> real \<Rightarrow> real \<Rightarrow> int \<Rightarrow> int \<Rightarrow> BBox2D" where
  "from_yolo_bbox cx cy nw nh w h =
     (let left = max 0 (py_int ((cx - nw / 2) * real_of_int w));
          upper = max 0 (py_int ((cy - nh / 2) * real_of_int h));
          right = min w (py_int ((cx + nw / 2) * real_of_int w));
          lower = min h (py_int ((cy + nh / 2) * real_of_int h))
      in \<lparr>x1 = real_of_int left, y1 = real_of_int upper,
          x2 = real_of_int right, y2 = real_of_int lower\<rparr>)"

text \<open>The box lies inside the frame of an image \<open>w\<close> wide and \<open>h\<close> high.\<close>

definition within_frame :: "BBox2D \<Rightarrow> int \<Rightarrow> int \<Rightarrow> bool" where
  "within_frame b w h =
     (0 \<le> x1 b \<and> x1 b \<le> real_of_int w \<and> 0 \<le> x2 b \<and> x2 b \<le> real_of_int w \<and>
      0 \<le> y1 b \<and> y1 b \<le> real_of_int h \<and> 0 \<le> y2 b \<and> y2 b \<le> real_of_int h)"

section \<open>Distortion\<close>

text \<open>
  The script draws from Python's global random generator. One call of \<open>distort\<close>
  makes four draws, in this order: \<open>random.uniform\<close> for x, \<open>random.uniform\<close> for
  y, \<open>random.choice([-1, 1])\<close> for x and for y. The model takes them as an argument:
  \<open>rand_x\<close> and \<open>rand_y\<close> are the fractions behind the two uniform draws
  (\<open>random.uniform(a, b)\<close> is \<open>a + (b - a) * random()\<close>), \<open>pick_x\<close> and \<open>pick_y\<close>
  say whether the choice took the second element of \<open>[-1, 1]\<close>.
\<close>

record draws =
  rand_x :: real
  rand_y :: real
  pick_x :: bool
  pick_y :: bool

definition valid_draws :: "draws \<Rightarrow> bool" where
  "valid_draws r = (0 \<le> rand_x r \<and> rand_x r \<le> 1 \<and> 0 \<le> rand_y r \<and> rand_y r \<le> 1)"

definition uniform :: "real \<Rightarrow> real \<Rightarrow> real \<Rightarrow> real" where
  "uniform a b r = a + (b - a) * r"

definition choice_sign :: "bool \<Rightarrow> real" where
  "choice_sign second = (if second then 1 else - 1)"

text \<open>
  \<^verbatim>\<open>
  def distort(x1, y1, x2, y2):
      w = x2 - x1
      h = y2 - y1
      max_distortion_x = 0.6 * w
      max_distortion_y = 0.6 * h
      distortion_x = random.uniform(0, max_distortion_x)
      distortion_y = random.uniform(0, max_distortion_y)
      distortion_x = random.choice([-1, 1]) * distortion_x
      distortion_y = random.choice([-1, 1]) * distortion_y
      x1_distorted = int(max(0, x1 + distortion_x))
      y1_distorted = int(max(0, y1 + distortion_y))
      x2_distorted = int(min(w, x2 + distortion_x))
      y2_distorted = int(min(h, y2 + distortion_y))
      return x1_distorted, y1_distorted, x2_distorted, y2_distorted
  \<close>
  The parameters are named \<open>px1, py1, px2, py2\<close> here, since \<open>x1 .. y2\<close> are the
  fields of \<open>BBox2D\<close>.
\<close>

definition distort :: "real \<Rightarrow> real \<Rightarrow> real \<Rightarrow> real \<Rightarrow> draws \<Rightarrow> int \<times> int \<times> int \<times> int" where
  "distort px1 py1 px2 py2 r =
     (let w = px2 - px1;
          h = py2 - py1;
          max_distortion_x = 0.6 * w;
          max_distortion_y = 0.6 * h;
          magnitude_x = uniform 0 max_distortion_x (rand_x r);
          magnitude_y = uniform 0 max_distortion_y (rand_y r);
          distortion_x = choice_sign (pick_x r) * magnitude_x;
          distortion_y = choice_sign (pick_y r) * magnitude_y;
          x1_distorted = py_int (max 0 (px1 + distortion_x));
          y1_distorted = py_int (max 0 (py1 + distortion_y));
          x2_distorted = py_int (min w (px2 + distortion_x));
          y2_distorted = py_int (min h (py2 + distortion_y))
      in (x1_distorted, y1_distorted, x2_distorted, y2_distorted))"

text \<open>
  A PIL image is used through \<open>img.size\<close> and \<open>img.crop(box)\<close> only, and handed to
  the classifier. It is modelled symbolically: an image opened from a path with its
  width and height, or the crop of an image to a box \<open>(left, upper, right, lower)\<close>,
  whose size is \<open>(right - left, lower - upper)\<close>. Cropping is taken to return for
  every box; the box \<open>distort_image\<close> passes for an image of positive size is shown
  below to have \<open>left \<le> right\<close> and \<open>upper \<le> lower\<close>.
\<close>

datatype image = Opened string int int | Cropped image int int int int

fun image_size :: "image \<Rightarrow> int \<times> int" where
  "image_size (Opened path w h) = (w, h)"
| "image_size (Cropped img left upper right lower) = (right - left, lower - upper)"

text \<open>
  \<^verbatim>\<open>
  def distort_image(img):
      w, h = img.size
      x1, y1, x2, y2 = 0, 0, w - 1, h - 1
      old_bbox = bbox.BBox2D((x1, y1, x2, y2), mode=bbox.XYXY)
      x1, y1, x2, y2 = distort(x1, y1, x2, y2)
      new_bbox = bbox.BBox2D((x1, y1, x2, y2), mode=bbox.XYXY)
      _iou = iou(old_bbox, new_bbox)
      return _iou, img.crop((x1, y1, x2, y2))
  \<close>
\<close>

definition distort_image :: "image \<Rightarrow> draws \<Rightarrow> py_error + real \<times> image" where
  "distort_image img r =
     (case image_size img of (w, h) \<Rightarrow>
        let old_bbox = \<lparr>x1 = 0, y1 = 0, x2 = real_of_int (w - 1), y2 = real_of_int (h - 1)\<rparr> in
        (case distort 0 0 (real_of_int (w - 1)) (real_of_int (h - 1)) r of
           (nx1, ny1, nx2, ny2) \<Rightarrow>
             let new_bbox = \<lparr>x1 = real_of_int nx1, y1 = real_of_int ny1,
                             x2 = real_of_int nx2, y2 = real_of_int ny2\<rparr> in
             (case iou old_bbox new_bbox of
                Inl e \<Rightarrow> Inl e
              | Inr v \<Rightarrow> Inr (v, Cropped img nx1 ny1 nx2 ny2))))"

section \<open>Evaluation harness\<close>

text \<open>
  The classifier is any function from an image to a raised exception or a
  \<open>ClassifierOutput\<close> (the field \<open>class_\<close> of the script is \<open>class_label\<close> here).
\<close>

record ClassifierOutput =
  class_label :: string
  conf :: real

type_synonym classifier = "image \<Rightarrow> py_error + ClassifierOutput"

text \<open>
  The dictionaries \<open>d\<close> and \<open>d_not\<close> are maps from the bucket key to the count.
  \<open>d[k] += v\<close> reads \<open>d[k]\<close> first, which raises KeyError for a key that is absent.
  A Python bool added to an int counts as 1 or 0.
\<close>

type_synonym counts = "int \<rightharpoonup> int"

definition initial_counts :: counts where
  "initial_counts =
     [2 \<mapsto> 0, 3 \<mapsto> 0, 4 \<mapsto> 0, 5 \<mapsto> 0, 6 \<mapsto> 0, 7 \<mapsto> 0, 8 \<mapsto> 0, 9 \<mapsto> 0, 10 \<mapsto> 0]"

definition add_count :: "counts \<Rightarrow> int \<Rightarrow> int \<Rightarrow> py_error + counts" where
  "add_count m k v = (case m k of None \<Rightarrow> Inl KeyError | Some c \<Rightarrow> Inr (m(k \<mapsto> c + v)))"

definition bool_int :: "bool \<Rightarrow> int" where
  "bool_int b = (if b then 1 else 0)"

text \<open>
  The chain \<open>if _iou < 0.2: ... elif _iou < 0.3: ... else: ...\<close> of \<open>main\<close> has nine
  branches that differ only in the key they update; \<open>bucket\<close> is that chain, giving
  the key.
\<close>

definition bucket :: "real \<Rightarrow> int" where
  "bucket v =
     (if v < 0.2 then 2
      else if v < 0.3 then 3
      else if v < 0.4 then 4
      else if v < 0.5 then 5
      else if v < 0.6 then 6
      else if v < 0.7 then 7
      else if v < 0.8 then 8
      else if v < 0.9 then 9
      else 10)"

definition endswith :: "string \<Rightarrow> string \<Rightarrow> bool" where
  "endswith s suffix =
     (length suffix \<le> length s \<and> drop (length s - length suffix) s = suffix)"

text \<open>
  The state of the run: the two dictionaries and how many times \<open>distort\<close> has been
  called, which is the position in the stream of random draws.
\<close>

record harness =
  d :: counts
  d_not :: counts
  calls :: nat

text \<open>
  \<^verbatim>\<open>
            if file.endswith(".png"):
                img = Image.open(f"{dir_}/{cls_dir}/{file}")
                _iou, img = distort_image(img)
                try:
                    pred = classifier.classify(img).class_
                except Exception as e:
                    continue
                if _iou < 0.2:
                    d[2] += pred == cls_dir
                    d_not[2] += pred != cls_dir
                elif ...
  \<close>
  The body of the inner loop, for one entry \<open>(file, img)\<close> of a class directory,
  where \<open>img\<close> is what \<open>Image.open\<close> returns for the file.
\<close>

definition process_file ::
  "classifier \<Rightarrow> (nat \<Rightarrow> draws) \<Rightarrow> string \<Rightarrow> string \<times> image \<Rightarrow> harness \<Rightarrow> py_error + harness" where
  "process_file classify rng cls_dir entry s =
     (case entry of (file, img) \<Rightarrow>
        if endswith file ''.png'' then
          (case distort_image img (rng (calls s)) of
             Inl e \<Rightarrow> Inl e
           | Inr (v, distorted) \<Rightarrow>
               let s1 = s\<lparr>calls := calls s + 1\<rparr> in
               (case classify distorted of
                  Inl e \<Rightarrow> Inr s1
                | Inr out \<Rightarrow>
                    let pred = class_label out; k = bucket v in
                    (case add_count (d s1) k (bool_int (pred = cls_dir)) of
                       Inl e \<Rightarrow> Inl e
                     | Inr d' \<Rightarrow>
                         (case add_count (d_not s1) k (bool_int (pred \<noteq> cls_dir)) of
                            Inl e \<Rightarrow> Inl e
                          | Inr d_not' \<Rightarrow> Inr (s1\<lparr>d := d', d_not := d_not'\<rparr>)))))
        else Inr s)"

text \<open>
  \<^verbatim>\<open>
  def main(dir_, classifier):
      d = {2: 0, 3: 0, 4: 0, 5: 0, 6: 0, 7: 0, 8: 0, 9: 0, 10: 0}
      d_not = {2: 0, 3: 0, 4: 0, 5: 0, 6: 0, 7: 0, 8: 0, 9: 0, 10: 0}
      for cls_dir in os.listdir(dir_):
          for file in os.listdir(f"{dir_}/{cls_dir}"):
              ...
      print(d)
      print(d_not)
  \<close>
  The directory \<open>dir_\<close> is given by its listing, \<open>dataset\<close>: the class
  directories in the order \<open>os.listdir\<close> returns them, each with its files and the
  image each file opens as (listing the directories and decoding the files are
  taken to have succeeded). The random generator is the stream \<open>rng\<close> of the draws
  of the successive calls of \<open>distort\<close>. The result is the pair of dictionaries
  that \<open>main\<close> prints.
\<close>

fun run_files ::
  "classifier \<Rightarrow> (nat \<Rightarrow> draws) \<Rightarrow> string \<Rightarrow> (string \<times> image) list \<Rightarrow> harness \<Rightarrow> py_error + harness" where
  "run_files classify rng cls_dir [] s = Inr s"
| "run_files classify rng cls_dir (entry # entries) s =
     (case process_file classify rng cls_dir entry s of
        Inl e \<Rightarrow> Inl e
      | Inr s' \<Rightarrow> run_files classify rng cls_dir entries s')"

fun run_dirs ::
  "classifier \<Rightarrow> (nat \<Rightarrow> draws) \<Rightarrow> (string \<times> (string \<times> image) list) list \<Rightarrow> harness \<Rightarrow> py_error + harness" where
  "run_dirs classify rng [] s = Inr s"
| "run_dirs classify rng ((cls_dir, entries) # dirs) s =
     (case run_files classify rng cls_dir entries s of
        Inl e \<Rightarrow> Inl e
      | Inr s' \<Rightarrow> run_dirs classify rng dirs s')"

definition main ::
  "(string \<times> (string \<times> image) list) list \<Rightarrow> classifier \<Rightarrow> (nat \<Rightarrow> draws) \<Rightarrow> py_error + counts \<times> counts" where
  "main dataset classify rng =
     (case run_dirs classify rng dataset \<lparr>d = initial_counts, d_not = initial_counts, calls = 0\<rparr> of
        Inl e \<Rightarrow> Inl e
      | Inr s \<Rightarrow> Inr (d s, d_not s))"

section \<open>Reading a run\<close>

text \<open>
  What the properties of the harness are stated with. \<open>bucket_keys\<close> are the nine
  keys of the dictionaries, \<open>count_at\<close> reads a counter and \<open>total\<close> sums the
  counters of a dictionary over the nine keys.
\<close>

definition bucket_keys :: "int list" where
  "bucket_keys = [2, 3, 4, 5, 6, 7, 8, 9, 10]"

definition count_at :: "counts \<Rightarrow> int \<Rightarrow> int" where
  "count_at m k = (case m k of None \<Rightarrow> 0 | Some c \<Rightarrow> c)"

definition total :: "counts \<Rightarrow> int" where
  "total m = sum_list (map (count_at m) bucket_keys)"

text \<open>
  The images a run processes, in the order of the two loops: for each class
  directory, its files whose name ends in \<open>.png\<close>, each with the directory's name.
\<close>

definition png_in_dir :: "string \<Rightarrow> (string \<times> image) list \<Rightarrow> (string \<times> image) list" where
  "png_in_dir cls_dir entries =
     map (\<lambda>(file, img). (cls_dir, img)) (filter (\<lambda>(file, img). endswith file ''.png'') entries)"

definition png_entries :: "(string \<times> (string \<times> image) list) list \<Rightarrow> (string \<times> image) list" where
  "png_entries dataset = concat (map (\<lambda>(cls_dir, entries). png_in_dir cls_dir entries) dataset)"

text \<open>
  What one image contributes, given the draws of its distortion: nothing when the
  classification of the distorted image raises, and otherwise the bucket of the IoU
  together with whether the predicted label equals the directory's name. The images
  take their draws from the stream in order, the first image at position \<open>n\<close>.
\<close>

definition outcome :: "classifier \<Rightarrow> draws \<Rightarrow> string \<times> image \<Rightarrow> (int \<times> bool) option" where
  "outcome classify r entry =
     (case entry of (cls_dir, img) \<Rightarrow>
        (case distort_image img r of
           Inl e \<Rightarrow> None
         | Inr (v, distorted) \<Rightarrow>
             (case classify distorted of
                Inl e \<Rightarrow> None
              | Inr out \<Rightarrow> Some (bucket v, class_label out = cls_dir))))"

fun outcomes_from ::
  "classifier \<Rightarrow> (nat \<Rightarrow> draws) \<Rightarrow> nat \<Rightarrow> (string \<times> image) list \<Rightarrow> (int \<times> bool) option list" where
  "outcomes_from classify rng n [] = []"
| "outcomes_from classify rng n (e # es) =
     outcome classify (rng n) e # outcomes_from classify rng (Suc n) es"

definition outcomes ::
  "(string \<times> (string \<times> image) list) list \<Rightarrow> classifier \<Rightarrow> (nat \<Rightarrow> draws) \<Rightarrow> (int \<times> bool) option list" where
  "outcomes dataset classify rng = outcomes_from classify rng 0 (png_entries dataset)"

text \<open>
  A dictionary after a list of outcomes has been counted into it: the counter of
  key \<open>k\<close> grows by the number of outcomes that are \<open>(k, correct)\<close>; no key is added.
\<close>

definition tally :: "(int \<times> bool) option list \<Rightarrow> bool \<Rightarrow> counts \<Rightarrow> counts" where
  "tally outs correct m =
     (\<lambda>k. case m k of None \<Rightarrow> None
          | Some c \<Rightarrow> Some (c + int (count_list outs (Some (k, correct)))))"

section \<open>An example run\<close>

text \<open>
  A dataset of two class directories with three \<open>.png\<close> files, each an image of
  size (100, 100), and one other file. The first call of \<open>distort\<close> draws the fractions 1/2
  and 1 with the signs plus and minus, every later call draws no displacement.
  \<open>example_classifier\<close> raises on the distorted \<open>b.png\<close> and answers \<open>cat\<close> on
  everything else; \<open>failing_classifier\<close> always raises.
\<close>

definition example_draws :: draws where
  "example_draws = \<lparr>rand_x = 1 / 2, rand_y = 1, pick_x = True, pick_y = False\<rparr>"

definition still_draws :: draws where
  "still_draws = \<lparr>rand_x = 0, rand_y = 0, pick_x = True, pick_y = True\<rparr>"

definition example_rng :: "nat \<Rightarrow> draws" where
  "example_rng n = (if n = 0 then example_draws else still_draws)"

definition example_dataset :: "(string \<times> (string \<times> image) list) list" where
  "example_dataset =
     [(''cat'', [(''a.png'', Opened ''a.png'' 100 100),
                 (''notes.txt'', Opened ''notes.txt'' 5 5),
                 (''b.png'', Opened ''b.png'' 100 100)]),
      (''dog'', [(''c.png'', Opened ''c.png'' 100 100)])]"

definition example_classifier :: classifier where
  "example_classifier img =
     (if img = Cropped (Opened ''b.png'' 100 100) 0 0 99 99 then Inl ValueError
      else Inr \<lparr>class_label = ''cat'', conf = 1\<rparr>)"

definition failing_classifier :: classifier where
  "failing_classifier img = Inl ValueError"

section \<open>Properties of iou\<close>

lemma iou_unfold:
  "iou b1 b2 =
     (if union_area b1 b2 \<noteq> 0 then Inr (inter_area b1 b2 / union_area b1 b2) else Inr 0)"
  by (simp add: iou_def Let_def py_truediv_def union_area_def area_def inter_area_def)

lemma inter_area_commute: "inter_area b1 b2 = inter_area b2 b1"
  by (simp add: inter_area_def max.commute min.commute)

lemma union_area_commute: "union_area b1 b2 = union_area b2 b1"
  by (simp add: union_area_def inter_area_commute)

lemma inter_area_nonneg: "0 \<le> inter_area b1 b2"
  by (simp add: inter_area_def)

lemma area_nonneg: "well_formed b \<Longrightarrow> 0 \<le> area b"
  by (simp add: well_formed_def area_def)

lemma inter_area_le_left:
  assumes "well_formed b1"
  shows "inter_area b1 b2 \<le> area b1"
proof -
  have w: "max 0 (min (x2 b1) (x2 b2) - max (x1 b1) (x1 b2)) \<le> x2 b1 - x1 b1"
    using assms by (auto simp: well_formed_def)
  have h: "max 0 (min (y2 b1) (y2 b2) - max (y1 b1) (y1 b2)) \<le> y2 b1 - y1 b1"
    using assms by (auto simp: well_formed_def)
  have "max 0 (min (x2 b1) (x2 b2) - max (x1 b1) (x1 b2)) *
        max 0 (min (y2 b1) (y2 b2) - max (y1 b1) (y1 b2))
        \<le> (x2 b1 - x1 b1) * (y2 b1 - y1 b1)"
    by (rule mult_mono [OF w h]) (use assms in \<open>auto simp: well_formed_def\<close>)
  then show ?thesis by (simp add: inter_area_def area_def)
qed

lemma inter_area_le_right: "well_formed b2 \<Longrightarrow> inter_area b1 b2 \<le> area b2"
  using inter_area_le_left [of b2 b1] by (simp add: inter_area_commute)

lemma inter_area_self: "well_formed b \<Longrightarrow> inter_area b b = area b"
  by (simp add: inter_area_def area_def well_formed_def)

lemma inter_area_zero_left:
  assumes "area b1 = 0"
  shows "inter_area b1 b2 = 0"
proof -
  from assms have "x2 b1 = x1 b1 \<or> y2 b1 = y1 b1"
    by (simp add: area_def)
  then show ?thesis
  proof
    assume "x2 b1 = x1 b1"
    then have "max 0 (min (x2 b1) (x2 b2) - max (x1 b1) (x1 b2)) = 0" by simp
    then show ?thesis by (simp add: inter_area_def)
  next
    assume "y2 b1 = y1 b1"
    then have "max 0 (min (y2 b1) (y2 b2) - max (y1 b1) (y1 b2)) = 0" by simp
    then show ?thesis by (simp add: inter_area_def)
  qed
qed

lemma iou_commute: "iou b1 b2 = iou b2 b1"
  by (simp add: iou_unfold inter_area_commute union_area_commute)

lemma iou_range:
  assumes "well_formed b1" "well_formed b2"
  shows "\<exists>v. iou b1 b2 = Inr v \<and> 0 \<le> v \<and> v \<le> 1"
proof (cases "union_area b1 b2 = 0")
  case True
  then show ?thesis by (simp add: iou_unfold)
next
  case False
  have i0: "0 \<le> inter_area b1 b2" by (rule inter_area_nonneg)
  have "inter_area b1 b2 \<le> area b1" by (rule inter_area_le_left [OF assms(1)])
  moreover have "0 \<le> area b2" by (rule area_nonneg [OF assms(2)])
  ultimately have le: "inter_area b1 b2 \<le> union_area b1 b2"
    using inter_area_le_right [OF assms(2), of b1] by (simp add: union_area_def)
  with i0 False have pos: "0 < union_area b1 b2" by simp
  have "0 \<le> inter_area b1 b2 / union_area b1 b2" using i0 pos by simp
  moreover have "inter_area b1 b2 / union_area b1 b2 \<le> 1" using le pos by simp
  ultimately show ?thesis using False by (simp add: iou_unfold)
qed

lemma iou_self:
  assumes "well_formed b" "0 < area b"
  shows "iou b b = Inr 1"
proof -
  have "union_area b b = area b"
    using assms(1) by (simp add: union_area_def inter_area_self)
  then show ?thesis using assms by (simp add: iou_unfold inter_area_self)
qed

text \<open>
  C3. For rectangles \<open>a\<close> and \<open>b\<close> with \<open>x1 \<le> x2\<close> and \<open>y1 \<le> y2\<close>:
  \<open>iou a b\<close> equals \<open>iou b a\<close>, \<open>iou a a\<close> is 1 whenever the area of \<open>a\<close> is
  positive, and \<open>iou a b\<close> returns a number in the closed interval from 0 to 1.
\<close>

theorem iou_symmetric_self_bounded:
  assumes "well_formed a" and "well_formed b"
  shows "iou a b = iou b a
       \<and> (0 < area a \<longrightarrow> iou a a = Inr 1)
       \<and> (\<exists>v. iou a b = Inr v \<and> 0 \<le> v \<and> v \<le> 1)"
  using assms by (simp add: iou_commute iou_self iou_range)

theorem iou_symmetric_self_bounded_witness:
  "well_formed \<lparr>x1 = 0, y1 = 0, x2 = 4, y2 = 4\<rparr>
   \<and> well_formed \<lparr>x1 = 2, y1 = 2, x2 = 6, y2 = 6\<rparr>
   \<and> 0 < area \<lparr>x1 = 0, y1 = 0, x2 = 4, y2 = 4\<rparr>
   \<and> iou \<lparr>x1 = 0, y1 = 0, x2 = 4, y2 = 4\<rparr> \<lparr>x1 = 2, y1 = 2, x2 = 6, y2 = 6\<rparr> = Inr (1 / 7)
   \<and> iou \<lparr>x1 = 2, y1 = 2, x2 = 6, y2 = 6\<rparr> \<lparr>x1 = 0, y1 = 0, x2 = 4, y2 = 4\<rparr> = Inr (1 / 7)
   \<and> iou \<lparr>x1 = 0, y1 = 0, x2 = 4, y2 = 4\<rparr> \<lparr>x1 = 0, y1 = 0, x2 = 4, y2 = 4\<rparr> = Inr 1"
proof -
  have wa: "well_formed \<lparr>x1 = 0, y1 = 0, x2 = 4, y2 = 4\<rparr>"
    by (simp add: well_formed_def)
  have wb: "well_formed \<lparr>x1 = 2, y1 = 2, x2 = 6, y2 = 6\<rparr>"
    by (simp add: well_formed_def)
  have pa: "0 < area \<lparr>x1 = 0, y1 = 0, x2 = 4, y2 = 4\<rparr>"
    by (simp add: area_def)
  have v: "iou \<lparr>x1 = 0, y1 = 0, x2 = 4, y2 = 4\<rparr> \<lparr>x1 = 2, y1 = 2, x2 = 6, y2 = 6\<rparr> = Inr (1 / 7)"
    by (simp add: iou_def Let_def py_truediv_def)
  show ?thesis
    using iou_symmetric_self_bounded [OF wa wb] wa wb pa v by simp
qed

text \<open>
  C4. \<open>iou\<close> never raises: for all boxes it returns a number, the guarded division is
  never reached with a zero divisor. When the union area is exactly zero the result
  is 0, and when either box has zero area the result is 0.
\<close>

theorem iou_never_raises:
  "(\<exists>v. iou a b = Inr v)
   \<and> (union_area a b = 0 \<longrightarrow> iou a b = Inr 0)
   \<and> (area a = 0 \<longrightarrow> iou a b = Inr 0 \<and> iou b a = Inr 0)"
proof -
  have returns: "\<exists>v. iou a b = Inr v"
    by (simp add: iou_unfold)
  have degenerate: "union_area a b = 0 \<longrightarrow> iou a b = Inr 0"
    by (simp add: iou_unfold)
  have left: "iou a b = Inr 0" if "area a = 0"
    using inter_area_zero_left [OF that, of b] by (simp add: iou_unfold)
  have right: "iou b a = Inr 0" if "area a = 0"
    using left [OF that] by (simp only: iou_commute [of b a])
  from returns degenerate left right show ?thesis by blast
qed

theorem iou_never_raises_witness:
  "union_area \<lparr>x1 = 3, y1 = 3, x2 = 3, y2 = 3\<rparr> \<lparr>x1 = 5, y1 = 1, x2 = 5, y2 = 9\<rparr> = 0
   \<and> area \<lparr>x1 = 3, y1 = 3, x2 = 3, y2 = 3\<rparr> = 0
   \<and> iou \<lparr>x1 = 3, y1 = 3, x2 = 3, y2 = 3\<rparr> \<lparr>x1 = 5, y1 = 1, x2 = 5, y2 = 9\<rparr> = Inr 0
   \<and> iou \<lparr>x1 = 5, y1 = 1, x2 = 5, y2 = 9\<rparr> \<lparr>x1 = 3, y1 = 3, x2 = 3, y2 = 3\<rparr> = Inr 0"
proof -
  have u: "union_area \<lparr>x1 = 3, y1 = 3, x2 = 3, y2 = 3\<rparr> \<lparr>x1 = 5, y1 = 1, x2 = 5, y2 = 9\<rparr> = 0"
    by (simp add: union_area_def area_def inter_area_def)
  have z: "area \<lparr>x1 = 3, y1 = 3, x2 = 3, y2 = 3\<rparr> = 0"
    by (simp add: area_def)
  show ?thesis
    using iou_never_raises [of "\<lparr>x1 = 3, y1 = 3, x2 = 3, y2 = 3\<rparr>"
        "\<lparr>x1 = 5, y1 = 1, x2 = 5, y2 = 9\<rparr>"] u z by simp
qed

section \<open>Properties of find_closest_iou\<close>

lemma iou_returns: "\<exists>v. iou a b = Inr v"
  by (simp add: iou_unfold)

text \<open>
  The loop, started at position \<open>idx\<close> with the running best \<open>(li, lv)\<close>: the
  returned IoU bounds the running best and every scanned candidate; either the
  running best is returned unchanged, or the returned index is that of a scanned
  candidate whose IoU is the returned one, strictly above the running best and
  strictly above every candidate scanned before it.
\<close>

lemma find_closest_loop_spec:
  "\<exists>i v. find_closest_loop t cs idx (li, lv) = Inr (i, v) \<and> lv \<le> v
      \<and> (\<forall>k<length cs. \<exists>u. iou t (cs ! k) = Inr u \<and> u \<le> v)
      \<and> ((i = li \<and> v = lv)
         \<or> (\<exists>k<length cs. i = idx + 1 + k \<and> iou t (cs ! k) = Inr v \<and> lv < v
               \<and> (\<forall>j<k. \<exists>u. iou t (cs ! j) = Inr u \<and> u < v)))"
proof (induction cs arbitrary: idx li lv)
  case Nil
  show ?case by simp
next
  case (Cons c cs)
  obtain u where u: "iou t c = Inr u"
    using iou_returns by blast
  show ?case
  proof (cases "lv < u")
    case True
    from Cons.IH [of "idx + 1" "idx + 1" u]
    obtain i v where run: "find_closest_loop t cs (idx + 1) (idx + 1, u) = Inr (i, v)"
      and ge: "u \<le> v"
      and all: "\<forall>k<length cs. \<exists>w. iou t (cs ! k) = Inr w \<and> w \<le> v"
      and pos: "(i = idx + 1 \<and> v = u)
         \<or> (\<exists>k<length cs. i = idx + 1 + 1 + k \<and> iou t (cs ! k) = Inr v \<and> u < v
               \<and> (\<forall>j<k. \<exists>w. iou t (cs ! j) = Inr w \<and> w < v))"
      by blast
    have res: "find_closest_loop t (c # cs) idx (li, lv) = Inr (i, v)"
      using u True run by simp
    have all': "\<forall>k<length (c # cs). \<exists>w. iou t ((c # cs) ! k) = Inr w \<and> w \<le> v"
      using u ge all by (auto simp: nth_Cons split: nat.splits)
    have pos': "\<exists>k<length (c # cs). i = idx + 1 + k \<and> iou t ((c # cs) ! k) = Inr v \<and> lv < v
               \<and> (\<forall>j<k. \<exists>w. iou t ((c # cs) ! j) = Inr w \<and> w < v)"
      using pos
    proof
      assume "i = idx + 1 \<and> v = u"
      then show ?thesis using u True by (intro exI [of _ 0]) simp
    next
      assume "\<exists>k<length cs. i = idx + 1 + 1 + k \<and> iou t (cs ! k) = Inr v \<and> u < v
               \<and> (\<forall>j<k. \<exists>w. iou t (cs ! j) = Inr w \<and> w < v)"
      then obtain k where k: "k < length cs" "i = idx + 1 + 1 + k" "iou t (cs ! k) = Inr v"
          "u < v" "\<forall>j<k. \<exists>w. iou t (cs ! j) = Inr w \<and> w < v"
        by blast
      have "\<forall>j<Suc k. \<exists>w. iou t ((c # cs) ! j) = Inr w \<and> w < v"
        using u k(4) k(5) by (auto simp: nth_Cons split: nat.splits)
      then show ?thesis using k True by (intro exI [of _ "Suc k"]) simp
    qed
    show ?thesis using res all' pos' True ge by force
  next
    case False
    from Cons.IH [of "idx + 1" li lv]
    obtain i v where run: "find_closest_loop t cs (idx + 1) (li, lv) = Inr (i, v)"
      and ge: "lv \<le> v"
      and all: "\<forall>k<length cs. \<exists>w. iou t (cs ! k) = Inr w \<and> w \<le> v"
      and pos: "(i = li \<and> v = lv)
         \<or> (\<exists>k<length cs. i = idx + 1 + 1 + k \<and> iou t (cs ! k) = Inr v \<and> lv < v
               \<and> (\<forall>j<k. \<exists>w. iou t (cs ! j) = Inr w \<and> w < v))"
      by blast
    have res: "find_closest_loop t (c # cs) idx (li, lv) = Inr (i, v)"
      using u False run by simp
    have all': "\<forall>k<length (c # cs). \<exists>w. iou t ((c # cs) ! k) = Inr w \<and> w \<le> v"
      using u ge all False by (auto simp: nth_Cons split: nat.splits)
    have pos': "(i = li \<and> v = lv)
         \<or> (\<exists>k<length (c # cs). i = idx + 1 + k \<and> iou t ((c # cs) ! k) = Inr v \<and> lv < v
               \<and> (\<forall>j<k. \<exists>w. iou t ((c # cs) ! j) = Inr w \<and> w < v))"
      using pos
    proof
      assume "i = li \<and> v = lv"
      then show ?thesis by simp
    next
      assume "\<exists>k<length cs. i = idx + 1 + 1 + k \<and> iou t (cs ! k) = Inr v \<and> lv < v
               \<and> (\<forall>j<k. \<exists>w. iou t (cs ! j) = Inr w \<and> w < v)"
      then obtain k where k: "k < length cs" "i = idx + 1 + 1 + k" "iou t (cs ! k) = Inr v"
          "lv < v" "\<forall>j<k. \<exists>w. iou t (cs ! j) = Inr w \<and> w < v"
        by blast
      have "\<forall>j<Suc k. \<exists>w. iou t ((c # cs) ! j) = Inr w \<and> w < v"
        using u k(4) k(5) False by (auto simp: nth_Cons split: nat.splits)
      then have "\<exists>k<length (c # cs). i = idx + 1 + k \<and> iou t ((c # cs) ! k) = Inr v \<and> lv < v
               \<and> (\<forall>j<k. \<exists>w. iou t ((c # cs) ! j) = Inr w \<and> w < v)"
        using k by (intro exI [of _ "Suc k"]) simp
      then show ?thesis ..
    qed
    show ?thesis using res all' pos' ge by blast
  qed
qed

text \<open>
  C7. For every target and every non-empty list of candidates, \<open>find_closest_iou\<close>
  returns a pair \<open>(i, v)\<close> where \<open>i\<close> is an index of the list, \<open>v\<close> is the IoU of the
  target with candidate \<open>i\<close>, no candidate has a greater IoU, and every candidate
  before \<open>i\<close> has a strictly smaller one (the first maximal candidate wins). On a
  list of one candidate the index is 0.
\<close>

theorem find_closest_iou_maximal:
  assumes "contenders \<noteq> []"
  shows "\<exists>i v. find_closest_iou t contenders = Inr (i, v)
      \<and> i < length contenders
      \<and> iou t (contenders ! i) = Inr v
      \<and> (\<forall>k<length contenders. \<exists>u. iou t (contenders ! k) = Inr u \<and> u \<le> v)
      \<and> (\<forall>j<i. \<exists>u. iou t (contenders ! j) = Inr u \<and> u < v)
      \<and> (length contenders = 1 \<longrightarrow> i = 0)"
proof -
  from assms obtain c0 rest where cs: "contenders = c0 # rest"
    by (cases contenders) auto
  obtain v0 where v0: "iou t c0 = Inr v0"
    using iou_returns by blast
  from find_closest_loop_spec [of t rest 0 0 v0]
  obtain i v where run: "find_closest_loop t rest 0 (0, v0) = Inr (i, v)"
    and ge: "v0 \<le> v"
    and all: "\<forall>k<length rest. \<exists>w. iou t (rest ! k) = Inr w \<and> w \<le> v"
    and pos: "(i = 0 \<and> v = v0)
         \<or> (\<exists>k<length rest. i = 0 + 1 + k \<and> iou t (rest ! k) = Inr v \<and> v0 < v
               \<and> (\<forall>j<k. \<exists>w. iou t (rest ! j) = Inr w \<and> w < v))"
    by blast
  have res: "find_closest_iou t contenders = Inr (i, v)"
    using cs v0 run by (simp add: find_closest_iou_def)
  have all': "\<forall>k<length contenders. \<exists>u. iou t (contenders ! k) = Inr u \<and> u \<le> v"
    using cs v0 ge all by (auto simp: nth_Cons split: nat.splits)
  have rest: "i < length contenders \<and> iou t (contenders ! i) = Inr v
      \<and> (\<forall>j<i. \<exists>u. iou t (contenders ! j) = Inr u \<and> u < v)
      \<and> (length contenders = 1 \<longrightarrow> i = 0)"
    using pos
  proof
    assume "i = 0 \<and> v = v0"
    then show ?thesis using cs v0 by simp
  next
    assume "\<exists>k<length rest. i = 0 + 1 + k \<and> iou t (rest ! k) = Inr v \<and> v0 < v
               \<and> (\<forall>j<k. \<exists>w. iou t (rest ! j) = Inr w \<and> w < v)"
    then obtain k where k: "k < length rest" "i = Suc k" "iou t (rest ! k) = Inr v"
        "v0 < v" "\<forall>j<k. \<exists>w. iou t (rest ! j) = Inr w \<and> w < v"
      by auto
    have "\<forall>j<Suc k. \<exists>w. iou t ((c0 # rest) ! j) = Inr w \<and> w < v"
      using v0 k(4) k(5) by (auto simp: nth_Cons split: nat.splits)
    then show ?thesis using k cs by auto
  qed
  show ?thesis using res all' rest by blast
qed

text \<open>
  At a target and three candidates of which the second and the third both match the
  target exactly: the second is returned.
\<close>

theorem find_closest_iou_maximal_witness:
  "[\<lparr>x1 = 2, y1 = 2, x2 = 6, y2 = 6\<rparr>, \<lparr>x1 = 0, y1 = 0, x2 = 4, y2 = 4\<rparr>,
    \<lparr>x1 = 0, y1 = 0, x2 = 4, y2 = 4\<rparr>] \<noteq> []
   \<and> find_closest_iou \<lparr>x1 = 0, y1 = 0, x2 = 4, y2 = 4\<rparr>
       [\<lparr>x1 = 2, y1 = 2, x2 = 6, y2 = 6\<rparr>, \<lparr>x1 = 0, y1 = 0, x2 = 4, y2 = 4\<rparr>,
        \<lparr>x1 = 0, y1 = 0, x2 = 4, y2 = 4\<rparr>] = Inr (1, 1)
   \<and> iou \<lparr>x1 = 0, y1 = 0, x2 = 4, y2 = 4\<rparr> \<lparr>x1 = 2, y1 = 2, x2 = 6, y2 = 6\<rparr> = Inr (1 / 7)
   \<and> iou \<lparr>x1 = 0, y1 = 0, x2 = 4, y2 = 4\<rparr> \<lparr>x1 = 0, y1 = 0, x2 = 4, y2 = 4\<rparr> = Inr 1"
proof -
  have ne: "[\<lparr>x1 = 2, y1 = 2, x2 = 6, y2 = 6\<rparr>, \<lparr>x1 = 0, y1 = 0, x2 = 4, y2 = (4::real)\<rparr>,
    \<lparr>x1 = 0, y1 = 0, x2 = 4, y2 = 4\<rparr>] \<noteq> []"
    by simp
  have a: "iou \<lparr>x1 = 0, y1 = 0, x2 = 4, y2 = 4\<rparr> \<lparr>x1 = 2, y1 = 2, x2 = 6, y2 = 6\<rparr> = Inr (1 / 7)"
    by (simp add: iou_def Let_def py_truediv_def)
  have b: "iou \<lparr>x1 = 0, y1 = 0, x2 = 4, y2 = 4\<rparr> \<lparr>x1 = 0, y1 = 0, x2 = 4, y2 = 4\<rparr> = Inr 1"
    by (simp add: iou_def Let_def py_truediv_def)
  have run: "find_closest_iou \<lparr>x1 = 0, y1 = 0, x2 = 4, y2 = 4\<rparr>
       [\<lparr>x1 = 2, y1 = 2, x2 = 6, y2 = 6\<rparr>, \<lparr>x1 = 0, y1 = 0, x2 = 4, y2 = 4\<rparr>,
        \<lparr>x1 = 0, y1 = 0, x2 = 4, y2 = 4\<rparr>] = Inr (1, 1)"
    by (simp add: find_closest_iou_def a b)
  show ?thesis
    using find_closest_iou_maximal [OF ne, of "\<lparr>x1 = 0, y1 = 0, x2 = 4, y2 = 4\<rparr>"] ne a b run
    by simp
qed

text \<open>
  C8, as the specification states it: on an empty list the search fails with
  EmptyInputError. The script has no such check; the claim fails at this input.
\<close>

theorem find_closest_iou_empty_counterexample:
  "find_closest_iou \<lparr>x1 = 0, y1 = 0, x2 = 4, y2 = 4\<rparr> [] \<noteq> Inl EmptyInputError"
  by (simp add: find_closest_iou_def)

text \<open>
  C8, amended. On an empty list of candidates \<open>find_closest_iou\<close> raises IndexError,
  from reading \<open>contenders[0]\<close>; it has no precondition check of its own.
\<close>

theorem find_closest_iou_empty: "find_closest_iou t [] = Inl IndexError"
  by (simp add: find_closest_iou_def)

section \<open>Properties of from_yolo_bbox\<close>

lemma py_int_of_int: "py_int (real_of_int n) = n"
  by (simp add: py_int_def)

lemma py_int_mono:
  assumes "a \<le> b"
  shows "py_int a \<le> py_int b"
proof (cases "0 \<le> a")
  case True
  then show ?thesis using assms by (simp add: py_int_def floor_mono)
next
  case False
  show ?thesis
  proof (cases "0 \<le> b")
    case True
    have ca: "\<lceil>a\<rceil> \<le> 0" using False by (simp add: ceiling_le_zero)
    have fb: "0 \<le> \<lfloor>b\<rfloor>" using True by simp
    have "py_int a = \<lceil>a\<rceil>" using False by (simp add: py_int_def)
    moreover have "py_int b = \<lfloor>b\<rfloor>" using True by (simp add: py_int_def)
    ultimately show ?thesis using order_trans [OF ca fb] by (simp only:)
  next
    case nb: False
    then show ?thesis using False assms by (simp add: py_int_def ceiling_mono)
  qed
qed

lemma py_int_nonneg: "0 \<le> a \<Longrightarrow> 0 \<le> py_int a"
  by (simp add: py_int_def)

lemma py_int_le_int: "a \<le> real_of_int n \<Longrightarrow> py_int a \<le> n"
  using py_int_mono [of a "real_of_int n"] by (simp add: py_int_of_int)

text \<open>
  One axis of the conversion, for a box of non-negative extent \<open>n\<close> around \<open>c\<close>
  whose low edge is not beyond the frame's end and whose high edge is not before the
  frame's start.
\<close>

lemma clamp_axis:
  fixes c n :: real and w :: int
  assumes "0 \<le> w" "0 \<le> n" "c - n / 2 \<le> 1" "0 \<le> c + n / 2"
  shows "0 \<le> max 0 (py_int ((c - n / 2) * real_of_int w))"
    and "max 0 (py_int ((c - n / 2) * real_of_int w)) \<le> w"
    and "0 \<le> min w (py_int ((c + n / 2) * real_of_int w))"
    and "min w (py_int ((c + n / 2) * real_of_int w)) \<le> w"
    and "max 0 (py_int ((c - n / 2) * real_of_int w)) \<le> min w (py_int ((c + n / 2) * real_of_int w))"
proof -
  let ?a = "(c - n / 2) * real_of_int w"
  let ?b = "(c + n / 2) * real_of_int w"
  have w0: "0 \<le> real_of_int w" using assms(1) by simp
  have "?a \<le> 1 * real_of_int w"
    by (rule mult_right_mono [OF assms(3) w0])
  then have a_le: "py_int ?a \<le> w"
    using py_int_le_int [of ?a w] by simp
  have "0 \<le> ?b" using assms(4) w0 by simp
  then have b_ge: "0 \<le> py_int ?b" by (rule py_int_nonneg)
  have "c - n / 2 \<le> c + n / 2" using assms(2) by simp
  then have "?a \<le> ?b" by (rule mult_right_mono [OF _ w0])
  then have ab: "py_int ?a \<le> py_int ?b" by (rule py_int_mono)
  show "0 \<le> max 0 (py_int ?a)" by simp
  show "max 0 (py_int ?a) \<le> w" using a_le assms(1) by simp
  show "0 \<le> min w (py_int ?b)" using b_ge assms(1) by simp
  show "min w (py_int ?b) \<le> w" by simp
  show "max 0 (py_int ?a) \<le> min w (py_int ?b)"
    using a_le b_ge ab assms(1) by simp
qed

text \<open>
  C9, as the specification states it: for every input the result lies within the
  frame and has \<open>x1 \<le> x2\<close> and \<open>y1 \<le> y2\<close>. A box 0.2 wide centred at \<open>cx = 2\<close>,
  wholly to the right of a 100 by 100 image, is converted to \<open>x1 = 190\<close>,
  \<open>x2 = 100\<close>: only the low edge is clamped at 0 and only the high edge at the
  image's dimension.
\<close>

theorem from_yolo_bbox_counterexample:
  "\<not> (within_frame (from_yolo_bbox 2 (1 / 2) (1 / 5) (1 / 5) 100 100) 100 100
      \<and> well_formed (from_yolo_bbox 2 (1 / 2) (1 / 5) (1 / 5) 100 100))"
  by (simp add: from_yolo_bbox_def Let_def within_frame_def well_formed_def py_int_def)

text \<open>
  C9, amended. For image dimensions that are not negative and a box of non-negative
  width and height that is not wholly outside the frame (its low edges are not
  beyond 1 and its high edges not below 0, in normalized coordinates), the result of
  \<open>from_yolo_bbox\<close> has all four coordinates within the frame and satisfies
  \<open>x1 \<le> x2\<close> and \<open>y1 \<le> y2\<close>. This covers every box partly outside the frame.
\<close>

theorem from_yolo_bbox_clamped:
  assumes "0 \<le> w" and "0 \<le> h" and "0 \<le> nw" and "0 \<le> nh"
    and "cx - nw / 2 \<le> 1" and "0 \<le> cx + nw / 2"
    and "cy - nh / 2 \<le> 1" and "0 \<le> cy + nh / 2"
  shows "within_frame (from_yolo_bbox cx cy nw nh w h) w h
       \<and> well_formed (from_yolo_bbox cx cy nw nh w h)"
  using clamp_axis [OF assms(1) assms(3) assms(5) assms(6)]
        clamp_axis [OF assms(2) assms(4) assms(7) assms(8)]
  by (simp add: from_yolo_bbox_def Let_def within_frame_def well_formed_def)

text \<open>A box whose left edge is outside the frame, at \<open>cx - nw / 2 = - 0.05\<close>.\<close>

theorem from_yolo_bbox_clamped_witness:
  "from_yolo_bbox (1 / 20) (1 / 2) (1 / 5) (1 / 5) 100 100 = \<lparr>x1 = 0, y1 = 40, x2 = 15, y2 = 60\<rparr>
   \<and> within_frame (from_yolo_bbox (1 / 20) (1 / 2) (1 / 5) (1 / 5) 100 100) 100 100
   \<and> well_formed (from_yolo_bbox (1 / 20) (1 / 2) (1 / 5) (1 / 5) 100 100)"
proof -
  have v: "from_yolo_bbox (1 / 20) (1 / 2) (1 / 5) (1 / 5) 100 100 = \<lparr>x1 = 0, y1 = 40, x2 = 15, y2 = 60\<rparr>"
    by (simp add: from_yolo_bbox_def Let_def py_int_def)
  show ?thesis
    using from_yolo_bbox_clamped [of 100 100 "1 / 5" "1 / 5" "1 / 20" "1 / 2"] v by simp
qed

section \<open>Properties of distort\<close>

text \<open>
  The signed displacement along one axis of extent \<open>dim\<close> is
  \<open>choice_sign s * uniform 0 (0.6 * dim) r\<close>. Its magnitude is at most
  \<open>0.6 * \<bar>dim\<bar>\<close>, and every value of that magnitude is the displacement of some draw.
\<close>

lemma displacement_bound:
  fixes r dim :: real
  assumes "0 \<le> r" "r \<le> 1"
  shows "\<bar>choice_sign s * uniform 0 (0.6 * dim) r\<bar> \<le> 0.6 * \<bar>dim\<bar>"
proof -
  have "\<bar>choice_sign s * uniform 0 (0.6 * dim) r\<bar> = 0.6 * \<bar>dim\<bar> * r"
    using assms(1) by (simp add: choice_sign_def uniform_def abs_mult)
  also have "\<dots> \<le> 0.6 * \<bar>dim\<bar> * 1"
    by (rule mult_left_mono [OF assms(2)]) simp
  finally show ?thesis by simp
qed

lemma displacement_onto:
  fixes dx dim :: real
  assumes "\<bar>dx\<bar> \<le> 0.6 * \<bar>dim\<bar>"
  shows "\<exists>r s. 0 \<le> r \<and> r \<le> 1 \<and> choice_sign s * uniform 0 (0.6 * dim) r = dx"
proof (cases "dim = 0")
  case True
  with assms have "dx = 0" by simp
  then show ?thesis using True by (intro exI [of _ 0] exI [of _ True]) (simp add: uniform_def)
next
  case False
  define r where "r = \<bar>dx\<bar> / (0.6 * \<bar>dim\<bar>)"
  have r0: "0 \<le> r" by (simp add: r_def)
  have r1: "r \<le> 1" using assms False by (simp add: r_def)
  have m: "0.6 * \<bar>dim\<bar> * r = \<bar>dx\<bar>" using False by (simp add: r_def)
  have "choice_sign ((0 \<le> dx) = (0 \<le> dim)) * uniform 0 (0.6 * dim) r = dx"
    using m False by (auto simp: choice_sign_def uniform_def abs_if split: if_splits)
  with r0 r1 show ?thesis by blast
qed

text \<open>
  C5. For every rectangle \<open>(px1, py1, px2, py2)\<close>, with \<open>w = px2 - px1\<close> and
  \<open>h = py2 - py1\<close>: whatever the random draws, \<open>distort\<close> returns
  \<open>(int(max(0, px1 + dx)), int(max(0, py1 + dy)), int(min(w, px2 + dx)),
  int(min(h, py2 + dy)))\<close> for a displacement pair with \<open>\<bar>dx\<bar> \<le> 0.6 * \<bar>w\<bar>\<close> and
  \<open>\<bar>dy\<bar> \<le> 0.6 * \<bar>h\<bar>\<close>, the same \<open>dx\<close> on both x-coordinates and the same \<open>dy\<close> on
  both y-coordinates; and every displacement pair within these bounds is the one of
  some draws. The upper clamp bound is the box's own width and height. For a
  rectangle with \<open>px1 \<le> px2\<close> and \<open>py1 \<le> py2\<close> the bounds are \<open>0.6 * w\<close> and
  \<open>0.6 * h\<close>.
\<close>

theorem distort_formula:
  "(valid_draws r \<longrightarrow>
      (\<exists>dx dy. \<bar>dx\<bar> \<le> 0.6 * \<bar>px2 - px1\<bar> \<and> \<bar>dy\<bar> \<le> 0.6 * \<bar>py2 - py1\<bar>
         \<and> distort px1 py1 px2 py2 r =
             (py_int (max 0 (px1 + dx)), py_int (max 0 (py1 + dy)),
              py_int (min (px2 - px1) (px2 + dx)), py_int (min (py2 - py1) (py2 + dy)))))
   \<and> (\<bar>dx\<bar> \<le> 0.6 * \<bar>px2 - px1\<bar> \<and> \<bar>dy\<bar> \<le> 0.6 * \<bar>py2 - py1\<bar> \<longrightarrow>
      (\<exists>r. valid_draws r
         \<and> distort px1 py1 px2 py2 r =
             (py_int (max 0 (px1 + dx)), py_int (max 0 (py1 + dy)),
              py_int (min (px2 - px1) (px2 + dx)), py_int (min (py2 - py1) (py2 + dy)))))"
proof (intro conjI impI)
  assume v: "valid_draws r"
  let ?dx = "choice_sign (pick_x r) * uniform 0 (0.6 * (px2 - px1)) (rand_x r)"
  let ?dy = "choice_sign (pick_y r) * uniform 0 (0.6 * (py2 - py1)) (rand_y r)"
  have "\<bar>?dx\<bar> \<le> 0.6 * \<bar>px2 - px1\<bar>"
    using v by (intro displacement_bound) (simp_all add: valid_draws_def)
  moreover have "\<bar>?dy\<bar> \<le> 0.6 * \<bar>py2 - py1\<bar>"
    using v by (intro displacement_bound) (simp_all add: valid_draws_def)
  moreover have "distort px1 py1 px2 py2 r =
             (py_int (max 0 (px1 + ?dx)), py_int (max 0 (py1 + ?dy)),
              py_int (min (px2 - px1) (px2 + ?dx)), py_int (min (py2 - py1) (py2 + ?dy)))"
    by (simp add: distort_def Let_def)
  ultimately show "\<exists>dx dy. \<bar>dx\<bar> \<le> 0.6 * \<bar>px2 - px1\<bar> \<and> \<bar>dy\<bar> \<le> 0.6 * \<bar>py2 - py1\<bar>
         \<and> distort px1 py1 px2 py2 r =
             (py_int (max 0 (px1 + dx)), py_int (max 0 (py1 + dy)),
              py_int (min (px2 - px1) (px2 + dx)), py_int (min (py2 - py1) (py2 + dy)))"
    by blast
next
  assume b: "\<bar>dx\<bar> \<le> 0.6 * \<bar>px2 - px1\<bar> \<and> \<bar>dy\<bar> \<le> 0.6 * \<bar>py2 - py1\<bar>"
  from b displacement_onto [of dx "px2 - px1"]
  obtain rx sx where x: "0 \<le> rx" "rx \<le> 1" "choice_sign sx * uniform 0 (0.6 * (px2 - px1)) rx = dx"
    by blast
  from b displacement_onto [of dy "py2 - py1"]
  obtain ry sy where y: "0 \<le> ry" "ry \<le> 1" "choice_sign sy * uniform 0 (0.6 * (py2 - py1)) ry = dy"
    by blast
  let ?r = "\<lparr>rand_x = rx, rand_y = ry, pick_x = sx, pick_y = sy\<rparr>"
  have "valid_draws ?r" using x y by (simp add: valid_draws_def)
  moreover have "distort px1 py1 px2 py2 ?r =
             (py_int (max 0 (px1 + dx)), py_int (max 0 (py1 + dy)),
              py_int (min (px2 - px1) (px2 + dx)), py_int (min (py2 - py1) (py2 + dy)))"
    using x(3) y(3) by (simp add: distort_def Let_def)
  ultimately show "\<exists>r. valid_draws r
         \<and> distort px1 py1 px2 py2 r =
             (py_int (max 0 (px1 + dx)), py_int (max 0 (py1 + dy)),
              py_int (min (px2 - px1) (px2 + dx)), py_int (min (py2 - py1) (py2 + dy)))"
    by blast
qed

text \<open>
  At the rectangle \<open>(0, 0, 99, 99)\<close> with the fractions 1/2 and 1 and the signs
  plus and minus: \<open>dx = 29.7\<close>, \<open>dy = - 59.4\<close>.
\<close>

theorem distort_formula_witness:
  "valid_draws \<lparr>rand_x = 1 / 2, rand_y = 1, pick_x = True, pick_y = False\<rparr>
   \<and> distort 0 0 99 99 \<lparr>rand_x = 1 / 2, rand_y = 1, pick_x = True, pick_y = False\<rparr> = (29, 0, 99, 39)
   \<and> \<bar>297 / 10 :: real\<bar> \<le> 0.6 * \<bar>99 - 0\<bar> \<and> \<bar>- (297 / 5) :: real\<bar> \<le> 0.6 * \<bar>99 - 0\<bar>
   \<and> (py_int (max 0 (0 + 297 / 10)), py_int (max 0 (0 + - (297 / 5))),
       py_int (min (99 - 0) (99 + 297 / 10)), py_int (min (99 - 0) (99 + - (297 / 5)))) = (29, 0, 99, 39)"
proof -
  have v: "valid_draws \<lparr>rand_x = 1 / 2, rand_y = 1, pick_x = True, pick_y = False\<rparr>"
    by (simp add: valid_draws_def)
  have run: "distort 0 0 99 99 \<lparr>rand_x = 1 / 2, rand_y = 1, pick_x = True, pick_y = False\<rparr> = (29, 0, 99, 39)"
    by (simp add: distort_def py_int_def Let_def uniform_def choice_sign_def)
  have f: "(py_int (max 0 (0 + 297 / 10)), py_int (max 0 (0 + - (297 / 5))),
       py_int (min (99 - 0) (99 + 297 / 10)), py_int (min (99 - 0) (99 + - (297 / 5)))) = (29, 0, 99, 39)"
    by (simp add: py_int_def)
  show ?thesis
    using distort_formula [of "\<lparr>rand_x = 1 / 2, rand_y = 1, pick_x = True, pick_y = False\<rparr>"
        0 0 99 99 "297 / 10" "- (297 / 5)"] v run f
    by simp
qed

section \<open>Properties of distort_image\<close>

text \<open>
  One axis of \<open>distort\<close> as \<open>distort_image\<close> calls it, on the interval from 0 to
  \<open>W = n\<close> with \<open>n\<close> a non-negative int: the two distorted coordinates are ordered
  and lie between 0 and \<open>n\<close>.
\<close>

lemma distort_axis:
  fixes W r :: real and n :: int and s :: bool
  assumes W: "W = real_of_int n" and n: "0 \<le> n" and r: "0 \<le> r" "r \<le> 1"
  defines "dx \<equiv> choice_sign s * uniform 0 (0.6 * (W - 0)) r"
  shows "0 \<le> py_int (max 0 (0 + dx))"
    and "py_int (max 0 (0 + dx)) \<le> py_int (min (W - 0) (W + dx))"
    and "py_int (min (W - 0) (W + dx)) \<le> n"
proof -
  have W0: "0 \<le> W" using W n by simp
  have "\<bar>dx\<bar> \<le> 0.6 * \<bar>W\<bar>"
    unfolding dx_def using displacement_bound [OF r, of s W] by simp
  then have b: "\<bar>dx\<bar> \<le> 0.6 * W" using W0 by simp
  show "0 \<le> py_int (max 0 (0 + dx))"
    by (rule py_int_nonneg) simp
  have "dx \<le> W" and "0 \<le> W + dx"
    using b W0 by linarith+
  then have "max 0 (0 + dx) \<le> min (W - 0) (W + dx)"
    using W0 by simp
  then show "py_int (max 0 (0 + dx)) \<le> py_int (min (W - 0) (W + dx))"
    by (rule py_int_mono)
  have "min (W - 0) (W + dx) \<le> real_of_int n"
    using W by simp
  then show "py_int (min (W - 0) (W + dx)) \<le> n"
    by (rule py_int_le_int)
qed

text \<open>
  C6. For every image of positive width and height and every outcome of the random
  draws, \<open>distort_image\<close> returns an IoU between 0 and 1 and a cropped image whose
  width and height are each at least 0 and at most the original's.
\<close>

theorem distort_image_bounds:
  assumes v: "valid_draws r" and sz: "image_size img = (w, h)" and w: "0 < w" and h: "0 < h"
  shows "\<exists>v out. distort_image img r = Inr (v, out) \<and> 0 \<le> v \<and> v \<le> 1
      \<and> 0 \<le> fst (image_size out) \<and> fst (image_size out) \<le> w
      \<and> 0 \<le> snd (image_size out) \<and> snd (image_size out) \<le> h"
proof -
  obtain nx1 ny1 nx2 ny2
    where dd: "distort 0 0 (real_of_int (w - 1)) (real_of_int (h - 1)) r = (nx1, ny1, nx2, ny2)"
    by (cases "distort 0 0 (real_of_int (w - 1)) (real_of_int (h - 1)) r") auto
  have xs: "0 \<le> nx1 \<and> nx1 \<le> nx2 \<and> nx2 \<le> w - 1"
    using distort_axis [of "real_of_int (w - 1)" "w - 1" "rand_x r" "pick_x r"] v w
      dd [unfolded distort_def Let_def]
    by (simp only: valid_draws_def Pair_inject) simp
  have ys: "0 \<le> ny1 \<and> ny1 \<le> ny2 \<and> ny2 \<le> h - 1"
    using distort_axis [of "real_of_int (h - 1)" "h - 1" "rand_y r" "pick_y r"] v h
      dd [unfolded distort_def Let_def]
    by (simp only: valid_draws_def Pair_inject) simp
  let ?old = "\<lparr>x1 = 0, y1 = 0, x2 = real_of_int (w - 1), y2 = real_of_int (h - 1)\<rparr>"
  let ?new = "\<lparr>x1 = real_of_int nx1, y1 = real_of_int ny1,
               x2 = real_of_int nx2, y2 = real_of_int ny2\<rparr>"
  have "well_formed ?old" using w h by (simp add: well_formed_def)
  moreover have "well_formed ?new" using xs ys by (simp add: well_formed_def)
  ultimately obtain u where u: "iou ?old ?new = Inr u" "0 \<le> u" "u \<le> 1"
    using iou_range by blast
  have "distort_image img r = Inr (u, Cropped img nx1 ny1 nx2 ny2)"
    using sz dd u(1) by (simp add: distort_image_def)
  then show ?thesis using u xs ys by simp
qed

text \<open>An image of size (100, 100).\<close>

theorem distort_image_bounds_witness:
  "valid_draws \<lparr>rand_x = 1 / 2, rand_y = 1, pick_x = True, pick_y = False\<rparr>
   \<and> image_size (Opened ''a.png'' 100 100) = (100, 100)
   \<and> distort_image (Opened ''a.png'' 100 100)
        \<lparr>rand_x = 1 / 2, rand_y = 1, pick_x = True, pick_y = False\<rparr>
      = Inr (910 / 3267, Cropped (Opened ''a.png'' 100 100) 29 0 99 39)
   \<and> image_size (Cropped (Opened ''a.png'' 100 100) 29 0 99 39) = (70, 39)"
proof -
  have v: "valid_draws \<lparr>rand_x = 1 / 2, rand_y = 1, pick_x = True, pick_y = False\<rparr>"
    by (simp add: valid_draws_def)
  have sz: "image_size (Opened ''a.png'' 100 100) = (100, 100)"
    by simp
  have dd: "distort 0 0 99 99 \<lparr>rand_x = 1 / 2, rand_y = 1, pick_x = True, pick_y = False\<rparr> = (29, 0, 99, 39)"
    by (simp add: distort_def py_int_def Let_def uniform_def choice_sign_def)
  have i: "iou \<lparr>x1 = 0, y1 = 0, x2 = 99, y2 = 99\<rparr> \<lparr>x1 = 29, y1 = 0, x2 = 99, y2 = 39\<rparr> = Inr (910 / 3267)"
    by (simp add: iou_def Let_def py_truediv_def)
  have run: "distort_image (Opened ''a.png'' 100 100)
        \<lparr>rand_x = 1 / 2, rand_y = 1, pick_x = True, pick_y = False\<rparr>
      = Inr (910 / 3267, Cropped (Opened ''a.png'' 100 100) 29 0 99 39)"
    by (simp add: distort_image_def dd i)
  show ?thesis
    using distort_image_bounds [OF v sz] v run by simp
qed

section \<open>Properties of the harness\<close>

text \<open>
  C2. Every IoU value is assigned exactly one of the nine keys 2 to 10, by half-open
  ranges: below 0.2 the key is 2, from 0.2 to below 0.3 it is 3, and so on up to
  from 0.8 to below 0.9 it is 9, and from 0.9 on it is 10. The boundary value 0.3
  has key 4. \<open>process_file\<close> updates the two dictionaries at this key only.
\<close>

theorem bucket_ranges:
  "bucket v \<in> {2, 3, 4, 5, 6, 7, 8, 9, 10}
   \<and> (bucket v = 2 \<longleftrightarrow> v < 0.2)
   \<and> (bucket v = 3 \<longleftrightarrow> 0.2 \<le> v \<and> v < 0.3)
   \<and> (bucket v = 4 \<longleftrightarrow> 0.3 \<le> v \<and> v < 0.4)
   \<and> (bucket v = 5 \<longleftrightarrow> 0.4 \<le> v \<and> v < 0.5)
   \<and> (bucket v = 6 \<longleftrightarrow> 0.5 \<le> v \<and> v < 0.6)
   \<and> (bucket v = 7 \<longleftrightarrow> 0.6 \<le> v \<and> v < 0.7)
   \<and> (bucket v = 8 \<longleftrightarrow> 0.7 \<le> v \<and> v < 0.8)
   \<and> (bucket v = 9 \<longleftrightarrow> 0.8 \<le> v \<and> v < 0.9)
   \<and> (bucket v = 10 \<longleftrightarrow> 0.9 \<le> v)
   \<and> bucket 0.3 = 4"
  by (simp add: bucket_def)

text \<open>
  The loops of \<open>main\<close>. \<open>distort_image\<close> never raises, so one file either is
  not a \<open>.png\<close> and changes nothing, or makes one call of \<open>distort\<close> and counts its
  outcome into both dictionaries; a run counts the outcomes of its images, in order,
  into the initial dictionaries.
\<close>

lemma bucket_in_keys: "bucket v \<in> set bucket_keys"
  by (simp add: bucket_def bucket_keys_def)

lemma distort_image_returns: "\<exists>v out. distort_image img r = Inr (v, out)"
proof -
  obtain w h where sz: "image_size img = (w, h)"
    by (cases "image_size img") auto
  obtain nx1 ny1 nx2 ny2
    where dd: "distort 0 0 (real_of_int (w - 1)) (real_of_int (h - 1)) r = (nx1, ny1, nx2, ny2)"
    by (cases "distort 0 0 (real_of_int (w - 1)) (real_of_int (h - 1)) r") auto
  obtain u where "iou \<lparr>x1 = 0, y1 = 0, x2 = real_of_int (w - 1), y2 = real_of_int (h - 1)\<rparr>
      \<lparr>x1 = real_of_int nx1, y1 = real_of_int ny1, x2 = real_of_int nx2, y2 = real_of_int ny2\<rparr> = Inr u"
    using iou_returns by blast
  then show ?thesis using sz dd by (simp add: distort_image_def)
qed

lemma tally_Nil: "tally [] correct m = m"
  by (rule ext) (simp add: tally_def split: option.splits)

lemma tally_None: "tally [None] correct m = m"
  by (rule ext) (simp add: tally_def split: option.splits)

lemma tally_append: "tally (a @ b) correct m = tally b correct (tally a correct m)"
  by (rule ext) (simp add: tally_def split: option.splits)

lemma tally_Cons: "tally (x # outs) correct m = tally outs correct (tally [x] correct m)"
  using tally_append [of "[x]" outs correct m] by simp

lemma dom_tally: "dom (tally outs correct m) = dom m"
  by (auto simp: tally_def dom_def split: option.splits)

lemma add_count_tally:
  assumes "m k = Some c"
  shows "add_count m k (bool_int (p = correct)) = Inr (tally [Some (k, p)] correct m)"
proof -
  have "m(k \<mapsto> c + bool_int (p = correct)) = tally [Some (k, p)] correct m"
    using assms by (intro ext) (auto simp: tally_def bool_int_def split: option.splits)
  then show ?thesis using assms by (simp add: add_count_def)
qed

lemma process_file_spec:
  assumes "set bucket_keys \<subseteq> dom (d s)" and "set bucket_keys \<subseteq> dom (d_not s)"
  shows "process_file classify rng cls_dir (file, img) s =
     Inr (if endswith file ''.png''
          then s\<lparr>d := tally [outcome classify (rng (calls s)) (cls_dir, img)] True (d s),
                 d_not := tally [outcome classify (rng (calls s)) (cls_dir, img)] False (d_not s),
                 calls := calls s + 1\<rparr>
          else s)"
proof (cases "endswith file ''.png''")
  case False
  then show ?thesis by (simp add: process_file_def)
next
  case True
  obtain v distorted where di: "distort_image img (rng (calls s)) = Inr (v, distorted)"
    using distort_image_returns by blast
  show ?thesis
  proof (cases "classify distorted")
    case (Inl e)
    then have "outcome classify (rng (calls s)) (cls_dir, img) = None"
      using di by (simp add: outcome_def)
    then show ?thesis
      using True di Inl by (simp add: process_file_def tally_None)
  next
    case (Inr out)
    let ?p = "class_label out = cls_dir"
    have o: "outcome classify (rng (calls s)) (cls_dir, img) = Some (bucket v, ?p)"
      using di Inr by (simp add: outcome_def)
    obtain c where c: "d s (bucket v) = Some c"
      using assms(1) bucket_in_keys [of v] by blast
    obtain c' where c': "d_not s (bucket v) = Some c'"
      using assms(2) bucket_in_keys [of v] by blast
    have a: "add_count (d s) (bucket v) (bool_int ?p) = Inr (tally [Some (bucket v, ?p)] True (d s))"
      using add_count_tally [of "d s" "bucket v" c ?p True] c by simp
    have b: "add_count (d_not s) (bucket v) (bool_int (\<not> ?p)) = Inr (tally [Some (bucket v, ?p)] False (d_not s))"
      using add_count_tally [of "d_not s" "bucket v" c' ?p False] c' by simp
    show ?thesis
      using True di Inr a b o by (simp add: process_file_def Let_def)
  qed
qed

lemma run_files_spec:
  assumes "set bucket_keys \<subseteq> dom (d s)" and "set bucket_keys \<subseteq> dom (d_not s)"
  shows "run_files classify rng cls_dir entries s =
     Inr (s\<lparr>d := tally (outcomes_from classify rng (calls s) (png_in_dir cls_dir entries)) True (d s),
            d_not := tally (outcomes_from classify rng (calls s) (png_in_dir cls_dir entries)) False (d_not s),
            calls := calls s + length (png_in_dir cls_dir entries)\<rparr>)"
  using assms
proof (induction entries arbitrary: s)
  case Nil
  show ?case by (simp add: png_in_dir_def tally_Nil)
next
  case (Cons entry entries)
  obtain name img where e: "entry = (name, img)" by (cases entry) auto
  show ?case
  proof (cases "endswith name ''.png''")
    case False
    then have "png_in_dir cls_dir (entry # entries) = png_in_dir cls_dir entries"
      using e by (simp add: png_in_dir_def)
    then show ?thesis
      using False e Cons.IH [OF Cons.prems] process_file_spec [OF Cons.prems, of classify rng cls_dir name img]
      by simp
  next
    case True
    let ?o = "outcome classify (rng (calls s)) (cls_dir, img)"
    let ?s = "s\<lparr>d := tally [?o] True (d s), d_not := tally [?o] False (d_not s), calls := calls s + 1\<rparr>"
    have step: "process_file classify rng cls_dir entry s = Inr ?s"
      using True e process_file_spec [OF Cons.prems, of classify rng cls_dir name img] by simp
    have doms: "set bucket_keys \<subseteq> dom (d ?s)" "set bucket_keys \<subseteq> dom (d_not ?s)"
      using Cons.prems by (simp_all add: dom_tally)
    have png: "png_in_dir cls_dir (entry # entries) = (cls_dir, img) # png_in_dir cls_dir entries"
      using True e by (simp add: png_in_dir_def)
    let ?outs = "outcomes_from classify rng (Suc (calls s)) (png_in_dir cls_dir entries)"
    have t: "tally (?o # ?outs) True (d s) = tally ?outs True (tally [?o] True (d s))"
      and f: "tally (?o # ?outs) False (d_not s) = tally ?outs False (tally [?o] False (d_not s))"
      by (rule tally_Cons)+
    show ?thesis
      using step Cons.IH [OF doms] png
      by (simp add: t f)
  qed
qed

lemma outcomes_from_append:
  "outcomes_from classify rng n (a @ b) =
     outcomes_from classify rng n a @ outcomes_from classify rng (n + length a) b"
  by (induction a arbitrary: n) simp_all

lemma run_dirs_spec:
  assumes "set bucket_keys \<subseteq> dom (d s)" and "set bucket_keys \<subseteq> dom (d_not s)"
  shows "run_dirs classify rng dataset s =
     Inr (s\<lparr>d := tally (outcomes_from classify rng (calls s) (png_entries dataset)) True (d s),
            d_not := tally (outcomes_from classify rng (calls s) (png_entries dataset)) False (d_not s),
            calls := calls s + length (png_entries dataset)\<rparr>)"
  using assms
proof (induction dataset arbitrary: s)
  case Nil
  show ?case by (simp add: png_entries_def tally_Nil)
next
  case (Cons dir dataset)
  obtain cls_dir entries where e: "dir = (cls_dir, entries)" by (cases dir) auto
  let ?a = "png_in_dir cls_dir entries"
  let ?s = "s\<lparr>d := tally (outcomes_from classify rng (calls s) ?a) True (d s),
            d_not := tally (outcomes_from classify rng (calls s) ?a) False (d_not s),
            calls := calls s + length ?a\<rparr>"
  have step: "run_files classify rng cls_dir entries s = Inr ?s"
    by (rule run_files_spec [OF Cons.prems])
  have doms: "set bucket_keys \<subseteq> dom (d ?s)" "set bucket_keys \<subseteq> dom (d_not ?s)"
    using Cons.prems by (simp_all add: dom_tally)
  have png: "png_entries (dir # dataset) = ?a @ png_entries dataset"
    using e by (simp add: png_entries_def)
  show ?case
    using step Cons.IH [OF doms] png e
    by (simp add: outcomes_from_append tally_append)
qed

lemma dom_initial_counts: "dom initial_counts = set bucket_keys"
  by (auto simp: initial_counts_def bucket_keys_def)

lemma main_tally:
  "main dataset classify rng =
     Inr (tally (outcomes dataset classify rng) True initial_counts,
          tally (outcomes dataset classify rng) False initial_counts)"
  using run_dirs_spec [of "\<lparr>d = initial_counts, d_not = initial_counts, calls = 0\<rparr>" classify rng dataset]
  by (simp add: main_def outcomes_def dom_initial_counts)

lemma length_outcomes_from: "length (outcomes_from classify rng n es) = length es"
  by (induction es arbitrary: n) simp_all

lemma outcomes_from_nth:
  "i < length es \<Longrightarrow> outcomes_from classify rng n es ! i = outcome classify (rng (n + i)) (es ! i)"
proof (induction es arbitrary: n i)
  case Nil
  then show ?case by simp
next
  case (Cons e es)
  show ?case
  proof (cases i)
    case 0
    then show ?thesis by simp
  next
    case (Suc j)
    then show ?thesis using Cons.IH [of j "Suc n"] Cons.prems by simp
  qed
qed

lemma outcome_cases:
  "\<exists>v distorted. distort_image img r = Inr (v, distorted)
     \<and> outcome classify r (cls_dir, img) =
         (case classify distorted of
            Inl e \<Rightarrow> None
          | Inr out \<Rightarrow> Some (bucket v, class_label out = cls_dir))"
proof -
  obtain v distorted where "distort_image img r = Inr (v, distorted)"
    using distort_image_returns by blast
  then show ?thesis by (simp add: outcome_def)
qed

lemma outcome_key: "outcome classify r e = Some (k, c) \<Longrightarrow> k \<in> set bucket_keys"
  using bucket_in_keys
  by (auto simp: outcome_def split: prod.splits sum.splits)

lemma outcomes_from_keys:
  "Some (k, c) \<in> set (outcomes_from classify rng n es) \<Longrightarrow> k \<in> set bucket_keys"
proof (induction es arbitrary: n)
  case Nil
  then show ?case by simp
next
  case (Cons e es)
  from Cons.prems
  have "outcome classify (rng n) e = Some (k, c)
      \<or> Some (k, c) \<in> set (outcomes_from classify rng (Suc n) es)"
    by auto
  then show ?case using outcome_key Cons.IH by blast
qed

lemma total_tally:
  "total (tally outs c initial_counts) = sum_list (map (\<lambda>k. int (count_list outs (Some (k, c)))) bucket_keys)"
  by (simp add: total_def tally_def initial_counts_def count_at_def bucket_keys_def)

lemma sum_counts:
  assumes "\<forall>k c. Some (k, c) \<in> set outs \<longrightarrow> k \<in> set bucket_keys"
  shows "sum_list (map (\<lambda>k. int (count_list outs (Some (k, True)))) bucket_keys)
       + sum_list (map (\<lambda>k. int (count_list outs (Some (k, False)))) bucket_keys)
       = int (length (filter (\<lambda>x. x \<noteq> None) outs))"
  using assms
proof (induction outs)
  case Nil
  show ?case by (simp add: bucket_keys_def)
next
  case (Cons x outs)
  have IH: "sum_list (map (\<lambda>k. int (count_list outs (Some (k, True)))) bucket_keys)
       + sum_list (map (\<lambda>k. int (count_list outs (Some (k, False)))) bucket_keys)
       = int (length (filter (\<lambda>x. x \<noteq> None) outs))"
  proof (rule Cons.IH)
    show "\<forall>k c. Some (k, c) \<in> set outs \<longrightarrow> k \<in> set bucket_keys"
      using Cons.prems by (meson list.set_intros(2))
  qed
  show ?case
  proof (cases x)
    case None
    then show ?thesis using IH by simp
  next
    case (Some kc)
    obtain k c where kc: "kc = (k, c)" by (cases kc) auto
    have "k \<in> set bucket_keys" using Cons.prems Some kc by simp
    then have k: "k = 2 \<or> k = 3 \<or> k = 4 \<or> k = 5 \<or> k = 6 \<or> k = 7 \<or> k = 8 \<or> k = 9 \<or> k = 10"
      by (simp add: bucket_keys_def)
    have "sum_list (map (\<lambda>j. int (count_list (x # outs) (Some (j, True)))) bucket_keys)
        = sum_list (map (\<lambda>j. int (count_list outs (Some (j, True)))) bucket_keys) + (if c then 1 else 0)"
      using k Some kc by (auto simp: bucket_keys_def)
    moreover have "sum_list (map (\<lambda>j. int (count_list (x # outs) (Some (j, False)))) bucket_keys)
        = sum_list (map (\<lambda>j. int (count_list outs (Some (j, False)))) bucket_keys) + (if c then 0 else 1)"
      using k Some kc by (auto simp: bucket_keys_def)
    ultimately show ?thesis using IH Some by simp
  qed
qed

lemma tally_all_None:
  assumes "\<forall>x\<in>set outs. x = None"
  shows "tally outs c m = m"
proof (rule ext)
  fix k
  have "Some (k, c) \<notin> set outs" using assms by auto
  then have "count_list outs (Some (k, c)) = 0" by (simp add: count_list_0_iff)
  then show "tally outs c m k = m k" by (simp add: tally_def split: option.splits)
qed

lemma tally_initial:
  "k \<in> set bucket_keys \<Longrightarrow> tally outs c initial_counts k = Some (int (count_list outs (Some (k, c))))"
  by (auto simp: tally_def initial_counts_def bucket_keys_def)

text \<open>
  C1. Every run of \<open>main\<close> completes without raising. Image \<open>i\<close> of the run is
  distorted with the draws at position \<open>i\<close>; when the classification of the distorted
  image raises, its outcome is \<open>None\<close>, and otherwise it is the bucket of the IoU
  with whether the predicted label equals the directory name. At the end the correct
  counter of each bucket holds the number of images whose outcome is that bucket with
  a match, and the incorrect counter the number of those without a match: an image
  that was classified is counted once, in one counter of one bucket, and an image
  whose classification raised is counted nowhere. So the sum of all counters is the
  number of classified images, and when every classification raises both
  dictionaries are as initialised, all zero.
\<close>

theorem main_counts:
  "\<exists>cs ns. main dataset classify rng = Inr (cs, ns)
     \<and> length (outcomes dataset classify rng) = length (png_entries dataset)
     \<and> (\<forall>i<length (png_entries dataset). \<exists>v distorted.
           distort_image (snd (png_entries dataset ! i)) (rng i) = Inr (v, distorted)
         \<and> outcomes dataset classify rng ! i =
             (case classify distorted of
                Inl e \<Rightarrow> None
              | Inr out \<Rightarrow> Some (bucket v, class_label out = fst (png_entries dataset ! i))))
     \<and> (\<forall>k\<in>set bucket_keys.
           cs k = Some (int (count_list (outcomes dataset classify rng) (Some (k, True))))
         \<and> ns k = Some (int (count_list (outcomes dataset classify rng) (Some (k, False)))))
     \<and> total cs + total ns = int (length (filter (\<lambda>x. x \<noteq> None) (outcomes dataset classify rng)))
     \<and> ((\<forall>x\<in>set (outcomes dataset classify rng). x = None)
          \<longrightarrow> cs = initial_counts \<and> ns = initial_counts)"
proof -
  let ?outs = "outcomes dataset classify rng"
  let ?cs = "tally ?outs True initial_counts"
  let ?ns = "tally ?outs False initial_counts"
  have run: "main dataset classify rng = Inr (?cs, ?ns)"
    by (rule main_tally)
  have len: "length ?outs = length (png_entries dataset)"
    by (simp add: outcomes_def length_outcomes_from)
  have each: "\<forall>i<length (png_entries dataset). \<exists>v distorted.
           distort_image (snd (png_entries dataset ! i)) (rng i) = Inr (v, distorted)
         \<and> ?outs ! i =
             (case classify distorted of
                Inl e \<Rightarrow> None
              | Inr out \<Rightarrow> Some (bucket v, class_label out = fst (png_entries dataset ! i)))"
  proof (intro allI impI)
    fix i assume i: "i < length (png_entries dataset)"
    have "?outs ! i = outcome classify (rng i) (fst (png_entries dataset ! i), snd (png_entries dataset ! i))"
      using outcomes_from_nth [OF i, of classify rng 0] by (simp add: outcomes_def)
    then show "\<exists>v distorted.
           distort_image (snd (png_entries dataset ! i)) (rng i) = Inr (v, distorted)
         \<and> ?outs ! i =
             (case classify distorted of
                Inl e \<Rightarrow> None
              | Inr out \<Rightarrow> Some (bucket v, class_label out = fst (png_entries dataset ! i)))"
      using outcome_cases [of "snd (png_entries dataset ! i)" "rng i" classify "fst (png_entries dataset ! i)"]
      by simp
  qed
  have keys: "\<forall>k\<in>set bucket_keys.
           ?cs k = Some (int (count_list ?outs (Some (k, True))))
         \<and> ?ns k = Some (int (count_list ?outs (Some (k, False))))"
    by (simp add: tally_initial)
  have "\<forall>k c. Some (k, c) \<in> set ?outs \<longrightarrow> k \<in> set bucket_keys"
    unfolding outcomes_def using outcomes_from_keys by blast
  then have sum: "total ?cs + total ?ns = int (length (filter (\<lambda>x. x \<noteq> None) ?outs))"
    unfolding total_tally by (rule sum_counts)
  have none: "(\<forall>x\<in>set ?outs. x = None) \<longrightarrow> ?cs = initial_counts \<and> ?ns = initial_counts"
    by (simp add: tally_all_None)
  from run len each keys sum none show ?thesis by blast
qed

lemma example_png_entries:
  "png_entries example_dataset =
     [(''cat'', Opened ''a.png'' 100 100), (''cat'', Opened ''b.png'' 100 100),
      (''dog'', Opened ''c.png'' 100 100)]"
  by (simp add: png_entries_def png_in_dir_def example_dataset_def endswith_def)

lemma example_distort_image:
  "distort_image (Opened p 100 100) example_draws
     = Inr (910 / 3267, Cropped (Opened p 100 100) 29 0 99 39)"
proof -
  have dd: "distort 0 0 99 99 example_draws = (29, 0, 99, 39)"
    by (simp add: distort_def py_int_def Let_def uniform_def choice_sign_def example_draws_def)
  have i: "iou \<lparr>x1 = 0, y1 = 0, x2 = 99, y2 = 99\<rparr> \<lparr>x1 = 29, y1 = 0, x2 = 99, y2 = 39\<rparr> = Inr (910 / 3267)"
    by (simp add: iou_def Let_def py_truediv_def)
  show ?thesis by (simp add: distort_image_def dd i)
qed

lemma still_distort_image:
  "distort_image (Opened p 100 100) still_draws = Inr (1, Cropped (Opened p 100 100) 0 0 99 99)"
proof -
  have dd: "distort 0 0 99 99 still_draws = (0, 0, 99, 99)"
    by (simp add: distort_def py_int_def Let_def uniform_def choice_sign_def still_draws_def)
  have i: "iou \<lparr>x1 = 0, y1 = 0, x2 = 99, y2 = 99\<rparr> \<lparr>x1 = 0, y1 = 0, x2 = 99, y2 = 99\<rparr> = Inr 1"
    by (simp add: iou_def Let_def py_truediv_def)
  show ?thesis by (simp add: distort_image_def dd i)
qed

lemma example_outcomes:
  "outcomes example_dataset example_classifier example_rng = [Some (3, True), None, Some (10, False)]"
  by (simp add: outcomes_def example_png_entries outcome_def example_rng_def
      example_distort_image still_distort_image example_classifier_def bucket_def)

lemma failing_outcomes:
  "outcomes example_dataset failing_classifier example_rng = [None, None, None]"
  by (simp add: outcomes_def example_png_entries outcome_def example_rng_def
      example_distort_image still_distort_image failing_classifier_def)

text \<open>
  The example run: \<open>a.png\<close> is matched in bucket 3, \<open>b.png\<close> fails to classify,
  \<open>c.png\<close> is mismatched in bucket 10. With the classifier that always raises,
  the dictionaries stay as initialised.
\<close>

theorem main_counts_witness:
  "outcomes example_dataset example_classifier example_rng = [Some (3, True), None, Some (10, False)]
   \<and> (\<exists>cs ns. main example_dataset example_classifier example_rng = Inr (cs, ns)
         \<and> cs 3 = Some 1 \<and> ns 3 = Some 0 \<and> cs 10 = Some 0 \<and> ns 10 = Some 1
         \<and> total cs + total ns = 2)
   \<and> outcomes example_dataset failing_classifier example_rng = [None, None, None]
   \<and> main example_dataset failing_classifier example_rng = Inr (initial_counts, initial_counts)"
proof -
  have a: "\<exists>cs ns. main example_dataset example_classifier example_rng = Inr (cs, ns)
         \<and> cs 3 = Some 1 \<and> ns 3 = Some 0 \<and> cs 10 = Some 0 \<and> ns 10 = Some 1
         \<and> total cs + total ns = 2"
    using main_counts [of example_dataset example_classifier example_rng]
    by (auto simp: example_outcomes bucket_keys_def)
  have b: "main example_dataset failing_classifier example_rng = Inr (initial_counts, initial_counts)"
    using main_counts [of example_dataset failing_classifier example_rng]
    by (auto simp: failing_outcomes)
  from a b show ?thesis by (simp add: example_outcomes failing_outcomes)
qed

text \<open>
  C10. Both dictionaries start with exactly the keys 2 to 10, each at 0. The only
  operation on a dictionary, \<open>d[k] += v\<close>, leaves the key set as it is. So at the end
  of every run both dictionaries have exactly these nine keys, and a run over an
  empty dataset returns both as initialised.
\<close>

theorem bucket_keys_fixed:
  "dom initial_counts = {2, 3, 4, 5, 6, 7, 8, 9, 10}
   \<and> (\<forall>k\<in>{2, 3, 4, 5, 6, 7, 8, 9, 10}. initial_counts k = Some 0)
   \<and> (\<forall>m k v m'. add_count m k v = Inr m' \<longrightarrow> dom m' = dom m)
   \<and> (\<exists>cs ns. main dataset classify rng = Inr (cs, ns)
         \<and> dom cs = {2, 3, 4, 5, 6, 7, 8, 9, 10} \<and> dom ns = {2, 3, 4, 5, 6, 7, 8, 9, 10})
   \<and> main [] classify rng = Inr (initial_counts, initial_counts)"
proof -
  have init: "dom initial_counts = {2, 3, 4, 5, 6, 7, 8, 9, 10}"
    by (auto simp: initial_counts_def)
  have zero: "\<forall>k\<in>{2, 3, 4, 5, 6, 7, 8, 9, 10}. initial_counts k = Some 0"
    by (simp add: initial_counts_def)
  have add: "\<forall>m k v m'. add_count m k v = Inr m' \<longrightarrow> dom m' = dom m"
    by (auto simp: add_count_def split: option.splits)
  have run: "\<exists>cs ns. main dataset classify rng = Inr (cs, ns)
         \<and> dom cs = {2, 3, 4, 5, 6, 7, 8, 9, 10} \<and> dom ns = {2, 3, 4, 5, 6, 7, 8, 9, 10}"
    using main_tally [of dataset classify rng] init by (simp add: dom_tally)
  have empty: "main [] classify rng = Inr (initial_counts, initial_counts)"
    by (simp add: main_def)
  from init zero add run empty show ?thesis by blast
qed

theorem bucket_keys_fixed_witness:
  "initial_counts 5 = Some 0
   \<and> add_count initial_counts 5 1 = Inr (initial_counts(5 \<mapsto> 1))
   \<and> dom (initial_counts(5 \<mapsto> 1)) = dom initial_counts
   \<and> main [] failing_classifier example_rng = Inr (initial_counts, initial_counts)"
proof -
  have a: "add_count initial_counts 5 1 = Inr (initial_counts(5 \<mapsto> 1))"
    by (simp add: add_count_def initial_counts_def)
  show ?thesis
    using bucket_keys_fixed [of "[]" failing_classifier example_rng] a by auto
qed

end
